theory Spec2Isabelle
  imports Complex_Main "HOL-Library.Char_ord" "HOL-Library.List_Lexorder"
begin

section \<open>The trie of \<^verbatim>\<open>src/src/trie.ts\<close>\<close>

text \<open>
  A word is a \<^typ>\<open>string\<close>. The loop \<^verbatim>\<open>for (const char of word)\<close> visits the characters of
  the word from left to right; one character, which the source holds as a string of its own
  and uses as a key, is one \<^typ>\<open>char\<close> here, and a prefix is the list of the characters
  walked so far. The only falsy value of the type \<^verbatim>\<open>string\<close> is the empty string.

  The \<^verbatim>\<open>Map<string, InternalNode>\<close> of a node is an association list in insertion order (the
  order a JavaScript \<^verbatim>\<open>Map\<close> iterates in), with \<^verbatim>\<open>has\<close> and \<^verbatim>\<open>set\<close> as below and
  \<^const>\<open>map_of\<close> as \<^verbatim>\<open>get\<close>. \<^verbatim>\<open>Array.prototype.sort()\<close> without a comparator sorts strings
  ascending by their code units; on keys of one character that is the order of \<^typ>\<open>char\<close>,
  and on strings it is the lexicographic order.
\<close>

datatype InternalNode =
  InternalNode (children: "(char \<times> InternalNode) list") (isTerminal: bool) (words: "string list")

definition createNode :: InternalNode where
  "createNode = InternalNode [] False []"

definition map_has :: "'k \<Rightarrow> ('k \<times> 'v) list \<Rightarrow> bool" where
  "map_has k m = (map_of m k \<noteq> None)"

fun map_set :: "'k \<Rightarrow> 'v \<Rightarrow> ('k \<times> 'v) list \<Rightarrow> ('k \<times> 'v) list" where
  "map_set k v [] = [(k, v)]"
| "map_set k v ((k', v') # m) = (if k' = k then (k, v) # m else (k', v') # map_set k v m)"

record Trie =
  trie_root :: InternalNode
  trie_words :: "string list"

definition newTrie :: Trie where
  "newTrie = \<lparr>trie_root = createNode, trie_words = []\<rparr>"

text \<open>
  The loop of \<^verbatim>\<open>insert\<close> and the three statements after it, on the node the loop has
  reached: \<^verbatim>\<open>insert_walk word rest node\<close> runs the rest of the loop from \<^verbatim>\<open>node\<close> and gives the
  value \<^verbatim>\<open>insert\<close> returns together with \<^verbatim>\<open>node\<close> as the run leaves it. The source mutates
  the nodes in place; here the parent is rebuilt around the child the walk went through.
\<close>

fun insert_walk :: "string \<Rightarrow> string \<Rightarrow> InternalNode \<Rightarrow> bool \<times> InternalNode" where
  "insert_walk word [] node =
     (if isTerminal node then (False, node)
      else (True, InternalNode (children node) True (words node @ [word])))"
| "insert_walk word (c # rest) node =
     (let ch = (if \<not> map_has c (children node) then map_set c createNode (children node)
                else children node);
          (added, child) = insert_walk word rest (the (map_of ch c))
      in (added, InternalNode (map_set c child ch) (isTerminal node) (words node)))"

definition Trie_insert :: "string \<Rightarrow> Trie \<Rightarrow> bool \<times> Trie" where
  "Trie_insert word t =
     (if word = [] then (False, t)
      else (let (added, r) = insert_walk word word (trie_root t)
            in if added then (True, \<lparr>trie_root = r, trie_words = trie_words t @ [word]\<rparr>)
               else (False, t\<lparr>trie_root := r\<rparr>)))"

definition Trie_words :: "Trie \<Rightarrow> string list" where
  "Trie_words t = trie_words t"

definition wordCount :: "Trie \<Rightarrow> nat" where
  "wordCount t = length (trie_words t)"

text \<open>The counter of \<^verbatim>\<open>nodeCount\<close> is threaded through the walk.\<close>

fun count_walk :: "InternalNode \<Rightarrow> nat \<Rightarrow> nat" where
  "count_walk (InternalNode ch t ws) count = fold count_walk (map snd ch) (count + 1)"

definition nodeCount :: "Trie \<Rightarrow> nat" where
  "nodeCount t = count_walk (trie_root t) 0"

datatype TrieHierarchyNode =
  TrieHierarchyNode (h_id: string) (h_char: string) (h_path: string) (h_isTerminal: bool)
    (h_words: "string list") (h_children: "TrieHierarchyNode list")

text \<open>
  The export. \<^verbatim>\<open>id: path || '__root__'\<close> is the path unless the path is empty. The lookup
  \<^verbatim>\<open>node.children.get(key)!\<close> is made for the keys of the map only (\<open>convert_get_defined\<close>).
\<close>

function convert :: "InternalNode \<Rightarrow> string \<Rightarrow> string \<Rightarrow> TrieHierarchyNode" where
  "convert (InternalNode ch t ws) char path =
     (let sortedKeys = sort (map fst ch);
          children' = map (\<lambda>key. convert (the (map_of ch key)) [key] (path @ [key])) sortedKeys
      in TrieHierarchyNode (if path = [] then ''__root__'' else path) char path t ws children')"
  by pat_completeness auto

lemma map_of_size_less:
  "k \<in> set (map fst m) \<Longrightarrow> size (the (map_of m k)) < Suc (size_list (size_prod (\<lambda>_. 0) size) m)"
  by (induction m) (auto simp: image_iff, force)

termination convert
proof (relation "measure (\<lambda>(node, char, path). size node)")
  show "wf (measure (\<lambda>(node, char, path). size node))"
    by simp
next
  fix ch :: "(char \<times> InternalNode) list" and t :: bool and ws :: "string list"
    and char path :: string and sortedKeys key
  assume "sortedKeys = sort (map fst ch)" and "key \<in> set sortedKeys"
  then have "key \<in> set (map fst ch)"
    by simp
  then have "size (the (map_of ch key)) < size (InternalNode ch t ws)"
    using map_of_size_less [of key ch] by simp
  then show "((the (map_of ch key), [key], path @ [key]), InternalNode ch t ws, char, path)
               \<in> measure (\<lambda>(node, char, path). size node)"
    by simp
qed

definition toHierarchy :: "Trie \<Rightarrow> TrieHierarchyNode" where
  "toHierarchy t = convert (trie_root t) [] []"

definition Trie_clear :: "Trie \<Rightarrow> Trie" where
  "Trie_clear t = \<lparr>trie_root = createNode, trie_words = []\<rparr>"

text \<open>
  The node the characters of a word lead to from a given node, if the children along the way
  exist; a word is stored when that node exists and is terminal. The source has no lookup
  method: these two say what the claims mean by a word that is already stored.
\<close>

fun find_node :: "InternalNode \<Rightarrow> string \<Rightarrow> InternalNode option" where
  "find_node node [] = Some node"
| "find_node node (c # rest) =
     (case map_of (children node) c of None \<Rightarrow> None | Some child \<Rightarrow> find_node child rest)"

definition terminal_at :: "InternalNode \<Rightarrow> string \<Rightarrow> bool" where
  "terminal_at node w = (case find_node node w of None \<Rightarrow> False | Some n \<Rightarrow> isTerminal n)"

definition is_stored :: "Trie \<Rightarrow> string \<Rightarrow> bool" where
  "is_stored t w = terminal_at (trie_root t) w"

text \<open>
  The states a \<^verbatim>\<open>Trie\<close> object can be in: the fields are private, so a state is reached from
  \<^verbatim>\<open>new Trie()\<close> by calls of \<^verbatim>\<open>insert\<close> and \<^verbatim>\<open>clear\<close>.
\<close>

inductive reachable :: "Trie \<Rightarrow> bool" where
  reach_new: "reachable newTrie"
| reach_insert: "reachable t \<Longrightarrow> reachable (snd (Trie_insert w t))"
| reach_clear: "reachable t \<Longrightarrow> reachable (Trie_clear t)"


text \<open>
  The nodes of an exported hierarchy, the root first, and the routes from the root: a route
  is the list of the nodes from the root down to one node, and every node ends exactly one.
\<close>

fun h_nodes :: "TrieHierarchyNode \<Rightarrow> TrieHierarchyNode list" where
  "h_nodes (TrieHierarchyNode i c p t ws cs) =
     TrieHierarchyNode i c p t ws cs # concat (map h_nodes cs)"

fun routes :: "TrieHierarchyNode \<Rightarrow> TrieHierarchyNode list list" where
  "routes (TrieHierarchyNode i c p t ws cs) =
     [TrieHierarchyNode i c p t ws cs]
       # map ((#) (TrieHierarchyNode i c p t ws cs)) (concat (map routes cs))"

text \<open>Calling \<^verbatim>\<open>insert\<close> on each word of a list in turn, the results dropped.\<close>

definition insert_all :: "string list \<Rightarrow> Trie \<Rightarrow> Trie" where
  "insert_all ws t = fold (\<lambda>w t. snd (Trie_insert w t)) ws t"


text \<open>
  The bookkeeping of the words of a node: a terminal node at the prefix \<^verbatim>\<open>path\<close> holds that
  prefix as its one word, any other node holds none, and so for the children.
\<close>

fun node_words_ok :: "string \<Rightarrow> InternalNode \<Rightarrow> bool" where
  "node_words_ok path (InternalNode ch t ws) =
     (ws = (if t then [path] else []) \<and> (\<forall>x \<in> set ch. node_words_ok (path @ [fst x]) (snd x)))"

section \<open>The word list as an array on the heap\<close>

text \<open>
  The field \<^verbatim>\<open>_words\<close> of a \<^verbatim>\<open>Trie\<close> holds a reference to an array, and the accessor
  \<^verbatim>\<open>words\<close> hands an array to its caller, who may write to it. Whether such a write reaches
  the trie depends on which array the caller was handed, so here the arrays of words live in
  a heap: the list of the arrays allocated so far, an array's address being its index.
  A new array gets the next free address. The record \<^verbatim>\<open>Trie\<close> above is this object with the
  contents of its array in the place of the reference (\<open>abs_trie\<close>). The arrays of the nodes
  are never handed out (\<^verbatim>\<open>toHierarchy\<close> copies them), so they stay values.
\<close>

type_synonym ref = nat
type_synonym heap = "string list list"

definition alloc :: "string list \<Rightarrow> heap \<Rightarrow> ref \<times> heap" where
  "alloc xs h = (length h, h @ [xs])"

record TrieObject =
  obj_root :: InternalNode
  obj_words :: ref

definition Trie_constructor :: "heap \<Rightarrow> TrieObject \<times> heap" where
  "Trie_constructor h =
     (let (a, h') = alloc [] h in (\<lparr>obj_root = createNode, obj_words = a\<rparr>, h'))"

text \<open>\<^verbatim>\<open>insert\<close>: \<^verbatim>\<open>this._words.push(word)\<close> writes to the array in place.\<close>

definition obj_insert :: "string \<Rightarrow> TrieObject \<times> heap \<Rightarrow> bool \<times> TrieObject \<times> heap" where
  "obj_insert word s =
     (let (this, h) = s in
      if word = [] then (False, this, h)
      else (let (added, r) = insert_walk word word (obj_root this)
            in if added
               then (True, this\<lparr>obj_root := r\<rparr>,
                     h[obj_words this := h ! obj_words this @ [word]])
               else (False, this\<lparr>obj_root := r\<rparr>, h)))"

text \<open>
  The accessor \<^verbatim>\<open>words\<close> of the trie, \<^verbatim>\<open>return [...this._words]\<close>: a new array with the
  elements of the trie's, and the reference to it. The accessor \<^verbatim>\<open>words\<close> of the visualizer
  returns what the accessor of its trie returns.
\<close>

definition obj_words_getter :: "TrieObject \<Rightarrow> heap \<Rightarrow> ref \<times> heap" where
  "obj_words_getter this h = alloc (h ! obj_words this) h"

definition Viz_words_getter :: "TrieObject \<Rightarrow> heap \<Rightarrow> ref \<times> heap" where
  "Viz_words_getter trie_of_this h = obj_words_getter trie_of_this h"

definition obj_wordCount :: "TrieObject \<Rightarrow> heap \<Rightarrow> nat" where
  "obj_wordCount this h = length (h ! obj_words this)"

text \<open>\<^verbatim>\<open>clear\<close>: \<^verbatim>\<open>this._words = []\<close> stores a reference to a new, empty array.\<close>

definition obj_clear :: "TrieObject \<times> heap \<Rightarrow> TrieObject \<times> heap" where
  "obj_clear s =
     (let (this, h) = s; (a, h') = alloc [] h
      in (this\<lparr>obj_root := createNode, obj_words := a\<rparr>, h'))"

text \<open>
  A sequence of calls on a trie object, and the words it accepted: the words of the calls of
  \<^verbatim>\<open>insert\<close> that returned true since the last \<^verbatim>\<open>clear\<close>, in the order of the calls.
\<close>

datatype call = Insert string | Clear

fun run :: "call list \<Rightarrow> TrieObject \<times> heap \<Rightarrow> TrieObject \<times> heap" where
  "run [] s = s"
| "run (Insert w # cs) s = run cs (snd (obj_insert w s))"
| "run (Clear # cs) s = run cs (obj_clear s)"

fun accepted :: "call list \<Rightarrow> TrieObject \<times> heap \<Rightarrow> string list \<Rightarrow> string list" where
  "accepted [] s acc = acc"
| "accepted (Insert w # cs) s acc =
     accepted cs (snd (obj_insert w s)) (if fst (obj_insert w s) then acc @ [w] else acc)"
| "accepted (Clear # cs) s acc = accepted cs (obj_clear s) []"

definition valid_ref :: "TrieObject \<times> heap \<Rightarrow> bool" where
  "valid_ref s = (obj_words (fst s) < length (snd s))"

definition abs_trie :: "TrieObject \<times> heap \<Rightarrow> Trie" where
  "abs_trie s = \<lparr>trie_root = obj_root (fst s), trie_words = snd s ! obj_words (fst s)\<rparr>"

section \<open>The visualizer of \<^verbatim>\<open>src/src/visualizer.ts\<close>\<close>

text \<open>
  The scene is what the claims observe of the document: the elements of the two layers and
  their \<^verbatim>\<open>stroke-width\<close> attributes. The node layer holds one \<^verbatim>\<open>g\<close> element per drawn node,
  with the datum bound to it (the \<^verbatim>\<open>data\<close> of the layout node, a \<^verbatim>\<open>TrieHierarchyNode\<close>) and its
  children in document order: circles and the label. The link layer holds one \<^verbatim>\<open>path\<close>
  element per drawn link, with the \<^verbatim>\<open>data\<close> of the link's target as its datum. Coordinates,
  colours, radii and opacities are left out: nothing in the source reads them back, so they
  decide neither which elements exist nor any \<^verbatim>\<open>stroke-width\<close>. The source sets
  \<^verbatim>\<open>stroke-width\<close> at once, never through a transition.

  The scene is taken at rest: a call is made when the transitions the last call started have
  ended, so the elements of an exit selection, which \<^verbatim>\<open>transition().remove()\<close> removes when
  their transition ends, are gone.

  The field \<^verbatim>\<open>renders\<close> is not in the source: it counts the calls of \<^verbatim>\<open>render\<close>.
\<close>

datatype tag = circle | text_label

record svg_element =
  el_tag :: tag
  stroke_width :: "real option"

type_synonym node_g = "TrieHierarchyNode \<times> svg_element list"
type_synonym link_path = "TrieHierarchyNode \<times> real option"

record TrieVisualizer =
  trie :: Trie
  linkGroup :: "link_path list"
  nodeGroup :: "node_g list"
  renders :: nat

definition newTrieVisualizer :: TrieVisualizer where
  "newTrieVisualizer = \<lparr>trie = newTrie, linkGroup = [], nodeGroup = [], renders = 0\<rparr>"

text \<open>
  The library calls of \<^verbatim>\<open>render\<close>, as d3 documents them. \<^verbatim>\<open>root.descendants()\<close> lists the
  nodes of the hierarchy in breadth-first order, the root first; \<^verbatim>\<open>root.links()\<close> lists one
  link per node but the root, in the same order, the node being the link's target.
\<close>

function descendants :: "TrieHierarchyNode list \<Rightarrow> TrieHierarchyNode list" where
  "descendants [] = []"
| "descendants (n # queue) = n # descendants (queue @ h_children n)"
  by pat_completeness auto
termination
  by (relation "measure (size_list size)") (auto, case_tac n, simp)

text \<open>
  \<^verbatim>\<open>selection.data(data, key)\<close>, the keyed join. First the selected elements are indexed by
  the key of their old datum, in document order; an element whose key an earlier element has
  is left to the exit selection (\<open>node_by_key\<close>). Then each new datum, in order, takes the
  indexed element of its key, if there is one, out of the index, and that element is bound to
  the datum (the update selection); a datum that finds none enters (\<open>bind_data\<close>). The elements
  left over exit. An entering datum remembers the element of the next datum after it that
  updates (\<open>next_update\<close>); \<^verbatim>\<open>enter().append(...)\<close> puts its new element before that one, or
  at the end of the layer if there is none (\<open>enter_before\<close>). Updating elements stay where they
  are, and exiting ones are removed. \<open>join create els data\<close> is the layer after all this,
  \<open>create d\<close> being what \<^verbatim>\<open>render\<close> appends for an entering datum \<open>d\<close>.
\<close>

fun node_by_key :: "string list \<Rightarrow> nat \<Rightarrow> (string \<times> nat) list \<Rightarrow> (string \<times> nat) list" where
  "node_by_key [] i m = m"
| "node_by_key (k # ks) i m = node_by_key ks (i + 1) (if map_has k m then m else map_set k i m)"

fun map_delete :: "'k \<Rightarrow> ('k \<times> 'v) list \<Rightarrow> ('k \<times> 'v) list" where
  "map_delete k [] = []"
| "map_delete k ((k', v) # m) = (if k' = k then m else (k', v) # map_delete k m)"

fun bind_data :: "TrieHierarchyNode list \<Rightarrow> (string \<times> nat) list
    \<Rightarrow> (TrieHierarchyNode \<times> nat option) list" where
  "bind_data [] m = []"
| "bind_data (d # ds) m =
     (case map_of m (h_id d) of
        Some i \<Rightarrow> (d, Some i) # bind_data ds (map_delete (h_id d) m)
      | None \<Rightarrow> (d, None) # bind_data ds m)"

fun next_update :: "(TrieHierarchyNode \<times> nat option) list \<Rightarrow> nat option" where
  "next_update [] = None"
| "next_update ((d, Some i) # bs) = Some i"
| "next_update ((d, None) # bs) = next_update bs"

fun enter_before :: "nat option \<Rightarrow> (TrieHierarchyNode \<times> nat option) list
    \<Rightarrow> TrieHierarchyNode list" where
  "enter_before n [] = []"
| "enter_before n ((d, Some i) # bs) = enter_before n bs"
| "enter_before n ((d, None) # bs) =
     (if next_update bs = n then [d] else []) @ enter_before n bs"

fun bound_datum :: "nat \<Rightarrow> (TrieHierarchyNode \<times> nat option) list
    \<Rightarrow> TrieHierarchyNode option" where
  "bound_datum i [] = None"
| "bound_datum i ((d, m) # bs) = (if m = Some i then Some d else bound_datum i bs)"

definition join :: "(TrieHierarchyNode \<Rightarrow> 'a) \<Rightarrow> (TrieHierarchyNode \<times> 'a) list
    \<Rightarrow> TrieHierarchyNode list \<Rightarrow> (TrieHierarchyNode \<times> 'a) list" where
  "join create els data =
     (let bound = bind_data data (node_by_key (map (h_id \<circ> fst) els) 0 [])
      in concat (map (\<lambda>(i, e).
             case bound_datum i bound of
               None \<Rightarrow> []
             | Some d \<Rightarrow> map (\<lambda>d'. (d', create d')) (enter_before (Some i) bound) @ [(d, snd e)])
           (enumerate 0 els))
         @ map (\<lambda>d'. (d', create d')) (enter_before None bound))"

text \<open>
  What \<^verbatim>\<open>render\<close> appends. An entering link is a path of \<^verbatim>\<open>stroke-width\<close> 2.5. An entering
  node is a group holding the terminal ring, if its datum is terminal (a circle of
  \<^verbatim>\<open>stroke-width\<close> 2), then the main circle (of \<^verbatim>\<open>stroke-width\<close> 2 for the root id and 2.5
  otherwise), then the label. Afterwards every group of the merged selection whose datum is
  terminal and which holds exactly one circle gets a ring: \<^verbatim>\<open>g.insert('circle', 'circle')\<close>
  puts it before the first circle of the group.
\<close>

definition new_link :: "TrieHierarchyNode \<Rightarrow> real option" where
  "new_link d = Some 2.5"

definition ring :: svg_element where
  "ring = \<lparr>el_tag = circle, stroke_width = Some 2\<rparr>"

definition new_node :: "TrieHierarchyNode \<Rightarrow> svg_element list" where
  "new_node d =
     (if h_isTerminal d then [ring] else [])
     @ [\<lparr>el_tag = circle, stroke_width = Some (if h_id d = ''__root__'' then 2 else 2.5)\<rparr>,
        \<lparr>el_tag = text_label, stroke_width = None\<rparr>]"

fun insert_before_circle :: "svg_element \<Rightarrow> svg_element list \<Rightarrow> svg_element list" where
  "insert_before_circle x [] = [x]"
| "insert_before_circle x (e # es) =
     (if el_tag e = circle then x # e # es else e # insert_before_circle x es)"

definition add_ring :: "node_g \<Rightarrow> node_g" where
  "add_ring g =
     (if h_isTerminal (fst g) \<and> length (filter (\<lambda>e. el_tag e = circle) (snd g)) = 1
      then (fst g, insert_before_circle ring (snd g)) else g)"

definition render :: "TrieVisualizer \<Rightarrow> TrieVisualizer" where
  "render v =
     (let data = toHierarchy (trie v);
          nodes = descendants [data];
          links = tl nodes
      in v\<lparr>linkGroup := join new_link (linkGroup v) links,
           nodeGroup := map add_ring (join new_node (nodeGroup v) nodes),
           renders := renders v + 1\<rparr>)"

definition addWord :: "string \<Rightarrow> TrieVisualizer \<Rightarrow> bool \<times> TrieVisualizer" where
  "addWord word v =
     (let (added, t) = Trie_insert word (trie v);
          v' = v\<lparr>trie := t\<rparr>
      in (added, if added then render v' else v'))"

fun addWords_loop :: "string list \<Rightarrow> Trie \<Rightarrow> bool \<Rightarrow> Trie \<times> bool" where
  "addWords_loop [] t changed = (t, changed)"
| "addWords_loop (word # rest) t changed =
     (let (added, t') = Trie_insert word t
      in addWords_loop rest t' (if added then True else changed))"

definition addWords :: "string list \<Rightarrow> TrieVisualizer \<Rightarrow> TrieVisualizer" where
  "addWords ws v =
     (let (t, changed) = addWords_loop ws (trie v) False;
          v' = v\<lparr>trie := t\<rparr>
      in if changed then render v' else v')"

definition Viz_clear :: "TrieVisualizer \<Rightarrow> TrieVisualizer" where
  "Viz_clear v = render (v\<lparr>trie := Trie_clear (trie v)\<rparr>)"

definition stats :: "TrieVisualizer \<Rightarrow> nat \<times> nat" where
  "stats v = (wordCount (trie v), nodeCount (trie v))"

text \<open>
  \<^verbatim>\<open>clearHighlights\<close>: \<^verbatim>\<open>selectAll('circle')\<close> selects every circle of the node layer and
  \<^verbatim>\<open>selectAll('path')\<close> every path of the link layer; \<^verbatim>\<open>attr\<close> sets the attribute on each.
\<close>

definition set_all_circles :: "real \<Rightarrow> node_g \<Rightarrow> node_g" where
  "set_all_circles w g =
     (fst g, map (\<lambda>e. if el_tag e = circle then e\<lparr>stroke_width := Some w\<rparr> else e) (snd g))"

definition clearHighlights :: "TrieVisualizer \<Rightarrow> TrieVisualizer" where
  "clearHighlights v =
     v\<lparr>nodeGroup := map (set_all_circles 2.5) (nodeGroup v),
       linkGroup := map (\<lambda>l. (fst l, Some 2.5)) (linkGroup v)\<rparr>"

text \<open>
  \<^verbatim>\<open>highlightPath\<close>. The loop collects the ids. \<^verbatim>\<open>selectAll('g').select('circle:nth-child(2)')\<close>
  selects, in each group, the first element that is a circle and the second child of its
  parent: the second child of the group if that is a circle, and nothing otherwise; the
  attribute function is given the datum of the group.
\<close>

fun pathIds_loop :: "string \<Rightarrow> string \<Rightarrow> string list \<Rightarrow> string list" where
  "pathIds_loop [] prefix ids = ids"
| "pathIds_loop (c # rest) prefix ids = pathIds_loop rest (prefix @ [c]) (ids @ [prefix @ [c]])"

definition set_second_circle :: "(TrieHierarchyNode \<Rightarrow> real) \<Rightarrow> node_g \<Rightarrow> node_g" where
  "set_second_circle f g =
     (case snd g of
        e1 # e2 # es \<Rightarrow>
          if el_tag e2 = circle then (fst g, e1 # e2\<lparr>stroke_width := Some (f (fst g))\<rparr> # es)
          else g
      | _ \<Rightarrow> g)"

definition highlightPath :: "string \<Rightarrow> TrieVisualizer \<Rightarrow> TrieVisualizer" where
  "highlightPath path v0 =
     (let v = clearHighlights v0;
          pathIds = pathIds_loop path [] [''__root__''];
          width = (\<lambda>d. if h_id d \<in> set pathIds then 4 else 2.5)
      in v\<lparr>nodeGroup := map (set_second_circle width) (nodeGroup v),
           linkGroup := map (\<lambda>l. (fst l, Some (width (fst l)))) (linkGroup v)\<rparr>)"

text \<open>
  What the claims read off a scene: for every group of the node layer, the id of its datum
  and the \<^verbatim>\<open>stroke-width\<close> of its circles in document order (the ring, if there is one, before
  the main circle); for every path of the link layer, the id of its target and its
  \<^verbatim>\<open>stroke-width\<close>.
\<close>

definition node_widths :: "TrieVisualizer \<Rightarrow> (string \<times> real option list) list" where
  "node_widths v =
     map (\<lambda>g. (h_id (fst g), map stroke_width (filter (\<lambda>e. el_tag e = circle) (snd g))))
       (nodeGroup v)"

definition link_widths :: "TrieVisualizer \<Rightarrow> (string \<times> real option) list" where
  "link_widths v = map (\<lambda>l. (h_id (fst l), snd l)) (linkGroup v)"

text \<open>Whether some call of \<^verbatim>\<open>insert\<close>, made on the words of a list in turn, returns true.\<close>

fun any_accepted :: "string list \<Rightarrow> Trie \<Rightarrow> bool" where
  "any_accepted [] t = False"
| "any_accepted (w # ws) t = (fst (Trie_insert w t) \<or> any_accepted ws (snd (Trie_insert w t)))"

section \<open>Facts about the map operations and the insertion walk\<close>

lemma map_of_map_set: "map_of (map_set k v m) k' = (if k' = k then Some v else map_of m k')"
  by (induction m) auto

lemma map_set_same: "map_of m k = Some v \<Longrightarrow> map_set k v m = m"
  by (induction m) (auto split: if_splits)

lemma terminal_at_Nil [simp]: "terminal_at node [] = isTerminal node"
  by (simp add: terminal_at_def)

lemma terminal_at_Cons:
  "terminal_at node (c # rest) =
     (case map_of (children node) c of None \<Rightarrow> False | Some child \<Rightarrow> terminal_at child rest)"
  by (simp add: terminal_at_def split: option.splits)

lemma terminal_at_createNode [simp]: "\<not> terminal_at createNode w"
  by (cases w) (simp_all add: terminal_at_Cons createNode_def)

lemma insert_walk_new:
  assumes "map_of (children node) c = None"
  shows "insert_walk word (c # rest) node =
     (fst (insert_walk word rest createNode),
      InternalNode (map_set c (snd (insert_walk word rest createNode))
          (map_set c createNode (children node)))
        (isTerminal node) (words node))"
  using assms by (simp add: map_has_def map_of_map_set Let_def split: prod.splits)

lemma insert_walk_old:
  assumes "map_of (children node) c = Some child"
  shows "insert_walk word (c # rest) node =
     (fst (insert_walk word rest child),
      InternalNode (map_set c (snd (insert_walk word rest child)) (children node))
        (isTerminal node) (words node))"
  using assms by (simp add: map_has_def Let_def split: prod.splits)

lemma insert_walk_added: "fst (insert_walk word rest node) = (\<not> terminal_at node rest)"
proof (induction rest arbitrary: node)
  case Nil
  then show ?case by simp
next
  case (Cons c rest)
  show ?case
  proof (cases "map_of (children node) c")
    case None
    then show ?thesis
      using Cons.IH [of createNode]
      by (simp add: insert_walk_new terminal_at_Cons del: insert_walk.simps)
  next
    case (Some child)
    then show ?thesis
      using Cons.IH [of child]
      by (simp add: insert_walk_old terminal_at_Cons del: insert_walk.simps)
  qed
qed

lemma insert_walk_unchanged:
  "\<not> fst (insert_walk word rest node) \<Longrightarrow> snd (insert_walk word rest node) = node"
proof (induction rest arbitrary: node)
  case Nil
  then show ?case by (simp split: if_splits)
next
  case (Cons c rest)
  from Cons.prems have stored: "terminal_at node (c # rest)"
    unfolding insert_walk_added by simp
  then obtain child where child: "map_of (children node) c = Some child"
    and "terminal_at child rest"
    by (auto simp: terminal_at_Cons split: option.splits)
  then have "\<not> fst (insert_walk word rest child)"
    by (simp add: insert_walk_added)
  then have "snd (insert_walk word rest child) = child"
    by (rule Cons.IH)
  then show ?case
    using child by (simp add: insert_walk_old map_set_same del: insert_walk.simps)
qed

lemma terminal_at_insert_walk:
  "terminal_at (snd (insert_walk word rest node)) v = (v = rest \<or> terminal_at node v)"
proof (induction rest arbitrary: node v)
  case Nil
  then show ?case by (cases v) (auto simp: terminal_at_Cons)
next
  case (Cons c rest)
  show ?case
  proof (cases v)
    case Nil
    then show ?thesis
      by (cases "map_of (children node) c")
        (simp_all add: insert_walk_new insert_walk_old del: insert_walk.simps)
  next
    case v: (Cons k u)
    show ?thesis
    proof (cases "map_of (children node) c")
      case None
      then show ?thesis
        using Cons.IH [of createNode u] v
        by (simp add: insert_walk_new terminal_at_Cons map_of_map_set del: insert_walk.simps)
    next
      case (Some child)
      then show ?thesis
        using Cons.IH [of child u] v
        by (simp add: insert_walk_old terminal_at_Cons map_of_map_set del: insert_walk.simps)
    qed
  qed
qed

section \<open>Facts about \<^verbatim>\<open>insert\<close> on a trie\<close>

lemma Trie_insert_eq:
  "Trie_insert w t =
     (if w = [] then (False, t)
      else if fst (insert_walk w w (trie_root t))
      then (True, \<lparr>trie_root = snd (insert_walk w w (trie_root t)), trie_words = trie_words t @ [w]\<rparr>)
      else (False, t\<lparr>trie_root := snd (insert_walk w w (trie_root t))\<rparr>))"
  by (simp add: Trie_insert_def split: prod.splits)

lemma Trie_insert_added: "fst (Trie_insert w t) = (w \<noteq> [] \<and> \<not> is_stored t w)"
  by (simp add: Trie_insert_eq is_stored_def insert_walk_added)

lemma Trie_insert_unchanged: "\<not> fst (Trie_insert w t) \<Longrightarrow> snd (Trie_insert w t) = t"
  by (simp add: Trie_insert_eq insert_walk_unchanged split: if_splits)

lemma Trie_insert_words:
  "trie_words (snd (Trie_insert w t)) =
     (if fst (Trie_insert w t) then trie_words t @ [w] else trie_words t)"
  by (simp add: Trie_insert_eq)

lemma is_stored_insert:
  "is_stored (snd (Trie_insert w t)) v = (is_stored t v \<or> (w \<noteq> [] \<and> v = w))"
  by (auto simp: Trie_insert_eq is_stored_def terminal_at_insert_walk)

lemma is_stored_new [simp]: "\<not> is_stored newTrie w"
  by (simp add: is_stored_def newTrie_def)

lemma Trie_clear_new [simp]: "Trie_clear t = newTrie"
  by (simp add: Trie_clear_def newTrie_def)

lemma reachable_stored: "reachable t \<Longrightarrow> is_stored t w = (w \<in> set (trie_words t))"
proof (induction arbitrary: w rule: reachable.induct)
  case reach_new
  then show ?case by (simp add: newTrie_def [symmetric]) (simp add: newTrie_def)
next
  case (reach_insert t v)
  then show ?case
    by (auto simp: is_stored_insert Trie_insert_words Trie_insert_added)
next
  case (reach_clear t)
  then show ?case by simp (simp add: newTrie_def)
qed


text \<open>
  The lookup \<^verbatim>\<open>node.children.get(char)!\<close> of the loop is never \<^verbatim>\<open>undefined\<close>: the key is in
  the map, or has just been set. So \<^verbatim>\<open>insert\<close> raises nothing.
\<close>

lemma insert_get_defined:
  "map_of (if \<not> map_has c m then map_set c v m else m) c \<noteq> None"
  by (simp add: map_has_def map_of_map_set)

lemma convert_get_defined: "key \<in> set (sort (map fst ch)) \<Longrightarrow> map_of ch key \<noteq> None"
  by (simp add: map_of_eq_None_iff)

section \<open>Facts about the export and the words of the nodes\<close>

lemma convert_fields [simp]:
  "h_char (convert node c p) = c" "h_path (convert node c p) = p"
  "h_isTerminal (convert node c p) = isTerminal node" "h_words (convert node c p) = words node"
  "h_id (convert node c p) = (if p = [] then ''__root__'' else p)"
  by (cases node; simp add: Let_def)+

lemma convert_children:
  "h_children (convert node c p) =
     map (\<lambda>key. convert (the (map_of (children node) key)) [key] (p @ [key]))
       (sort (map fst (children node)))"
  by (cases node) (simp add: Let_def)

lemma sorted_singletons: "sorted (map (\<lambda>k. [k]) ks) = sorted (ks :: char list)"
  by (induction ks) auto

lemma convert_children_sorted: "sorted (map h_char (h_children (convert node c p)))"
  by (simp add: convert_children comp_def sorted_singletons)

lemma routes_nonempty: "r \<in> set (routes h) \<Longrightarrow> r \<noteq> []"
  by (cases h) auto

lemma routes_cases:
  "r \<in> set (routes h) \<longleftrightarrow> r = [h] \<or> (\<exists>x \<in> set (h_children h). \<exists>r' \<in> set (routes x). r = h # r')"
  by (cases h) auto

lemma h_nodes_cases:
  "n \<in> set (h_nodes h) \<longleftrightarrow> n = h \<or> (\<exists>x \<in> set (h_children h). n \<in> set (h_nodes x))"
  by (cases h) auto

lemma last_routes: "map last (routes h) = h_nodes h"
proof (induction h rule: h_nodes.induct)
  case (1 i c p t ws cs)
  have drop_head: "map (last \<circ> (#) x) rs = map last rs"
    if "\<forall>r \<in> set rs. r \<noteq> []" for x :: TrieHierarchyNode and rs
    using that by (induction rs) auto
  have nonempty: "\<forall>r \<in> set (concat (map routes cs)). r \<noteq> []"
    by (auto dest: routes_nonempty)
  have "map last (concat (map routes cs)) = concat (map h_nodes cs)"
    using 1 by (induction cs) auto
  then show ?case
    by (simp add: drop_head [OF nonempty])
qed

lemma convert_routes:
  "r \<in> set (routes (convert node c p)) \<Longrightarrow>
     sorted (map h_char (h_children (last r))) \<and> h_path (last r) = p @ concat (map h_char (tl r))"
proof (induction node c p arbitrary: r rule: convert.induct)
  case (1 ch t ws char path)
  let ?h = "convert (InternalNode ch t ws) char path"
  from "1.prems" consider "r = [?h]"
    | x r' where "x \<in> set (h_children ?h)" "r' \<in> set (routes x)" "r = ?h # r'"
    unfolding routes_cases [of r ?h] by blast
  then show ?case
  proof cases
    case 1
    then show ?thesis
      using convert_children_sorted [of "InternalNode ch t ws" char path]
      by (simp del: convert.simps)
  next
    case 2
    from 2(1) obtain key where key: "key \<in> set (sort (map fst ch))"
      and x: "x = convert (the (map_of ch key)) [key] (path @ [key])"
      by (auto simp: convert_children)
    have ne: "r' \<noteq> []" using 2(2) by (rule routes_nonempty)
    have hd: "hd r' = x" using 2(2) by (cases x) auto
    have "sorted (map h_char (h_children (last r'))) \<and>
          h_path (last r') = (path @ [key]) @ concat (map h_char (tl r'))"
      using "1.IH" [OF refl key] 2(2) unfolding x by blast
    moreover have "concat (map h_char r') = [key] @ concat (map h_char (tl r'))"
      using ne hd x by (cases r') simp_all
    ultimately show ?thesis
      using 2(3) ne by simp
  qed
qed

lemma convert_child_paths:
  "n \<in> set (h_nodes (convert node c p)) \<Longrightarrow> x \<in> set (h_children n) \<Longrightarrow>
     h_path x = h_path n @ h_char x"
proof (induction node c p arbitrary: n rule: convert.induct)
  case (1 ch t ws char path)
  let ?h = "convert (InternalNode ch t ws) char path"
  from "1.prems"(1) consider "n = ?h" | y where "y \<in> set (h_children ?h)" "n \<in> set (h_nodes y)"
    unfolding h_nodes_cases [of n ?h] by blast
  then show ?case
  proof cases
    case 1
    then show ?thesis using "1.prems"(2) by (auto simp: convert_children)
  next
    case 2
    from 2(1) obtain key where key: "key \<in> set (sort (map fst ch))"
      and y: "y = convert (the (map_of ch key)) [key] (path @ [key])"
      by (auto simp: convert_children)
    show ?thesis
      using "1.IH" [OF refl key] 2(2) "1.prems"(2) unfolding y by blast
  qed
qed

lemma set_map_set: "x \<in> set (map_set k v m) \<Longrightarrow> x = (k, v) \<or> x \<in> set m"
  by (induction m) (auto split: if_splits)

lemma node_words_ok_createNode [simp]: "node_words_ok path createNode"
  by (simp add: createNode_def)

lemma node_words_ok_children:
  "node_words_ok path node \<Longrightarrow> map_of (children node) k = Some child \<Longrightarrow>
     node_words_ok (path @ [k]) child"
  by (cases node) (auto dest!: map_of_SomeD)

lemma node_words_ok_insert_walk:
  "node_words_ok path node \<Longrightarrow> word = path @ rest \<Longrightarrow>
     node_words_ok path (snd (insert_walk word rest node))"
proof (induction rest arbitrary: node path)
  case Nil
  then show ?case by (cases node) auto
next
  case (Cons c rest)
  obtain ch t ws where node: "node = InternalNode ch t ws"
    by (cases node)
  have old: "node_words_ok (path @ [fst x]) (snd x)" if "x \<in> set ch" for x
    using Cons.prems(1) that by (simp add: node)
  show ?case
  proof (cases "map_of ch c")
    case None
    let ?child = "snd (insert_walk word rest createNode)"
    have child: "node_words_ok (path @ [c]) ?child"
      using Cons.prems(2) by (intro Cons.IH) simp_all
    have "node_words_ok (path @ [fst x]) (snd x)"
      if "x \<in> set (map_set c ?child (map_set c createNode ch))" for x
      using set_map_set [OF that] set_map_set [of x c createNode ch] child old [of x]
      by auto
    then show ?thesis
      using None Cons.prems(1)
      by (simp add: node insert_walk_new del: insert_walk.simps)
  next
    case (Some child)
    let ?child = "snd (insert_walk word rest child)"
    have "node_words_ok (path @ [c]) child"
      using Cons.prems(1) Some node_words_ok_children [of path node c child] by (simp add: node)
    then have child: "node_words_ok (path @ [c]) ?child"
      using Cons.prems(2) by (intro Cons.IH) simp_all
    have "node_words_ok (path @ [fst x]) (snd x)" if "x \<in> set (map_set c ?child ch)" for x
      using set_map_set [OF that] child old [of x] by auto
    then show ?thesis
      using Some Cons.prems(1)
      by (simp add: node insert_walk_old del: insert_walk.simps)
  qed
qed

lemma reachable_no_empty_word: "reachable t \<Longrightarrow> [] \<notin> set (trie_words t)"
proof (induction rule: reachable.induct)
  case reach_new
  then show ?case by (simp add: newTrie_def)
next
  case (reach_insert t w)
  then show ?case by (auto simp: Trie_insert_words Trie_insert_added)
next
  case (reach_clear t)
  then show ?case by (simp add: newTrie_def)
qed

lemma reachable_root_not_terminal: "reachable t \<Longrightarrow> \<not> isTerminal (trie_root t)"
  using reachable_stored [of t "[]"] reachable_no_empty_word [of t]
  by (simp add: is_stored_def)

lemma reachable_words_ok: "reachable t \<Longrightarrow> node_words_ok [] (trie_root t)"
proof (induction rule: reachable.induct)
  case reach_new
  then show ?case by (simp add: newTrie_def)
next
  case (reach_insert t w)
  then show ?case
    using node_words_ok_insert_walk [of "[]" "trie_root t" w w]
    by (simp add: Trie_insert_eq)
next
  case (reach_clear t)
  then show ?case by (simp add: newTrie_def)
qed

lemma convert_words:
  "node_words_ok p node \<Longrightarrow> n \<in> set (h_nodes (convert node c p)) \<Longrightarrow>
     h_words n = (if h_isTerminal n then [h_path n] else [])"
proof (induction node c p arbitrary: n rule: convert.induct)
  case (1 ch t ws char path)
  let ?h = "convert (InternalNode ch t ws) char path"
  from "1.prems"(2) consider "n = ?h" | y where "y \<in> set (h_children ?h)" "n \<in> set (h_nodes y)"
    unfolding h_nodes_cases [of n ?h] by blast
  then show ?case
  proof cases
    case 1
    then show ?thesis using "1.prems"(1) by simp
  next
    case 2
    from 2(1) obtain key where key: "key \<in> set (sort (map fst ch))"
      and y: "y = convert (the (map_of ch key)) [key] (path @ [key])"
      by (auto simp: convert_children)
    from key obtain child where "map_of ch key = Some child"
      by (cases "map_of ch key") (auto simp: map_of_eq_None_iff)
    then have "node_words_ok (path @ [key]) (the (map_of ch key))"
      using "1.prems"(1) node_words_ok_children [of path "InternalNode ch t ws" key child]
      by simp
    then show ?thesis
      using "1.IH" [OF refl key] 2(2) unfolding y by blast
  qed
qed

section \<open>Facts about the trie object on the heap\<close>

lemma obj_insert_eq:
  "obj_insert w (this, h) =
     (if w = [] then (False, this, h)
      else if fst (insert_walk w w (obj_root this))
      then (True, this\<lparr>obj_root := snd (insert_walk w w (obj_root this))\<rparr>,
            h[obj_words this := h ! obj_words this @ [w]])
      else (False, this\<lparr>obj_root := snd (insert_walk w w (obj_root this))\<rparr>, h))"
  by (simp add: obj_insert_def split: prod.splits)

lemma valid_constructor: "valid_ref (Trie_constructor h)"
  by (simp add: valid_ref_def Trie_constructor_def alloc_def)

lemma valid_insert: "valid_ref s \<Longrightarrow> valid_ref (snd (obj_insert w s))"
  by (cases s) (simp add: valid_ref_def obj_insert_eq)

lemma valid_clear: "valid_ref (obj_clear s)"
  by (cases s) (simp add: valid_ref_def obj_clear_def alloc_def)

lemma abs_constructor: "abs_trie (Trie_constructor h) = newTrie"
  by (simp add: abs_trie_def Trie_constructor_def alloc_def newTrie_def)

lemma abs_insert:
  "valid_ref s \<Longrightarrow>
     fst (obj_insert w s) = fst (Trie_insert w (abs_trie s)) \<and>
     abs_trie (snd (obj_insert w s)) = snd (Trie_insert w (abs_trie s))"
  by (cases s) (simp add: valid_ref_def abs_trie_def obj_insert_eq Trie_insert_eq)

lemma abs_clear: "abs_trie (obj_clear s) = Trie_clear (abs_trie s)"
  by (cases s) (simp add: abs_trie_def obj_clear_def alloc_def newTrie_def)

lemma valid_run: "valid_ref s \<Longrightarrow> valid_ref (run cs s)"
  by (induction cs s rule: run.induct) (simp_all add: valid_insert valid_clear)

lemma accepted_run:
  "valid_ref s \<Longrightarrow> snd s ! obj_words (fst s) = acc \<Longrightarrow>
     snd (run cs s) ! obj_words (fst (run cs s)) = accepted cs s acc"
proof (induction cs s arbitrary: acc rule: run.induct)
  case (1 s)
  then show ?case by simp
next
  case (2 w cs s)
  obtain this h where s: "s = (this, h)" by (cases s)
  have "snd (snd (obj_insert w s)) ! obj_words (fst (snd (obj_insert w s))) =
      (if fst (obj_insert w s) then acc @ [w] else acc)"
    using "2.prems" by (simp add: s obj_insert_eq valid_ref_def)
  then show ?case
    using "2.IH" [OF valid_insert [OF "2.prems"(1)]] by simp
next
  case (3 cs s)
  have "snd (obj_clear s) ! obj_words (fst (obj_clear s)) = []"
    by (cases s) (simp add: obj_clear_def alloc_def)
  then show ?case
    using "3.IH" [OF valid_clear] by simp
qed

section \<open>Facts about \<^verbatim>\<open>addWords\<close>\<close>

lemma insert_all_Cons [simp]: "insert_all (w # ws) t = insert_all ws (snd (Trie_insert w t))"
  by (simp add: insert_all_def)

lemma insert_all_Nil [simp]: "insert_all [] t = t"
  by (simp add: insert_all_def)

lemma addWords_loop_eq:
  "addWords_loop ws t changed = (insert_all ws t, changed \<or> any_accepted ws t)"
  by (induction ws arbitrary: t changed) (auto split: prod.splits)

lemma wordCount_insert:
  "wordCount (snd (Trie_insert w t)) = wordCount t + (if fst (Trie_insert w t) then 1 else 0)"
  by (simp add: wordCount_def Trie_insert_words)

lemma wordCount_insert_all: "wordCount t \<le> wordCount (insert_all ws t)"
proof (induction ws arbitrary: t)
  case Nil
  then show ?case by simp
next
  case (Cons w ws)
  have "wordCount t \<le> wordCount (snd (Trie_insert w t))"
    by (simp add: wordCount_insert)
  also have "\<dots> \<le> wordCount (insert_all ws (snd (Trie_insert w t)))"
    by (rule Cons.IH)
  finally show ?case by simp
qed

lemma any_accepted_wordCount:
  "any_accepted ws t = (wordCount t < wordCount (insert_all ws t))"
proof (induction ws arbitrary: t)
  case Nil
  then show ?case by simp
next
  case (Cons w ws)
  show ?case
    using Cons.IH [of "snd (Trie_insert w t)"] wordCount_insert [of w t]
      wordCount_insert_all [of "snd (Trie_insert w t)" ws]
    by (cases "fst (Trie_insert w t)") auto
qed

section \<open>The claims about the trie\<close>

text \<open>
  C1, as the code has it. The claim says that the id of the root, the reserved \<^verbatim>\<open>'__root__'\<close>,
  is the id of no other node of an export. After \<^verbatim>\<open>insert('__root__')\<close> it is: the node of the
  prefix \<^verbatim>\<open>__root__\<close> has its path as id, and that is the root's id. The ids of the export, the
  root's first and then the others', are evaluated here.
\<close>

theorem root_id_collision:
  "h_id (toHierarchy (snd (Trie_insert ''__root__'' newTrie))) = ''__root__'' \<and>
   map h_id (tl (h_nodes (toHierarchy (snd (Trie_insert ''__root__'' newTrie))))) =
     [''_'', ''__'', ''__r'', ''__ro'', ''__roo'', ''__root'', ''__root_'', ''__root__'']"
  by code_simp

text \<open>
  C2: in every state a trie can reach, \<^verbatim>\<open>insert(word)\<close> returns false exactly when the word is
  empty or already in the word list, which is exactly when the node its characters lead to is
  terminal; and when it returns false the state after the call is the state before it, so
  \<^verbatim>\<open>words\<close>, \<^verbatim>\<open>wordCount\<close>, \<^verbatim>\<open>nodeCount\<close> and \<^verbatim>\<open>toHierarchy()\<close> are as they were. The model
  has no raising branch (see \<open>insert_get_defined\<close>).
\<close>

theorem insert_returns_false:
  assumes "reachable t"
  shows "(\<not> fst (Trie_insert w t)) = (w = [] \<or> w \<in> set (Trie_words t)) \<and>
         (w \<in> set (Trie_words t)) = is_stored t w \<and>
         (\<not> fst (Trie_insert w t) \<longrightarrow>
            snd (Trie_insert w t) = t \<and>
            Trie_words (snd (Trie_insert w t)) = Trie_words t \<and>
            wordCount (snd (Trie_insert w t)) = wordCount t \<and>
            nodeCount (snd (Trie_insert w t)) = nodeCount t \<and>
            toHierarchy (snd (Trie_insert w t)) = toHierarchy t)"
proof -
  have stored: "is_stored t w = (w \<in> set (Trie_words t))"
    using assms by (simp add: reachable_stored Trie_words_def)
  have "(\<not> fst (Trie_insert w t)) = (w = [] \<or> w \<in> set (Trie_words t))"
    by (auto simp: Trie_insert_added stored)
  moreover have "snd (Trie_insert w t) = t" if "\<not> fst (Trie_insert w t)"
    using that by (rule Trie_insert_unchanged)
  ultimately show ?thesis
    using stored by simp
qed

theorem insert_returns_false_witness:
  "reachable (snd (Trie_insert ''cat'' newTrie)) \<and>
   \<not> fst (Trie_insert ''cat'' (snd (Trie_insert ''cat'' newTrie))) \<and>
   ''cat'' \<in> set (Trie_words (snd (Trie_insert ''cat'' newTrie))) \<and>
   snd (Trie_insert ''cat'' (snd (Trie_insert ''cat'' newTrie))) = snd (Trie_insert ''cat'' newTrie) \<and>
   fst (Trie_insert ''car'' (snd (Trie_insert ''cat'' newTrie))) \<and>
   ''car'' \<notin> set (Trie_words (snd (Trie_insert ''cat'' newTrie)))"
proof -
  have r: "reachable (snd (Trie_insert ''cat'' newTrie))"
    by (rule reach_insert) (rule reach_new)
  have w: "Trie_words (snd (Trie_insert ''cat'' newTrie)) = [''cat'']"
    by code_simp
  show ?thesis
    using r w insert_returns_false [OF r, of "''cat''"] insert_returns_false [OF r, of "''car''"]
    by simp
qed

text \<open>
  C6: from a fresh trie, \<^verbatim>\<open>insert\<close> of "cat", "car" and "card" returns true each time, and
  then \<^verbatim>\<open>wordCount\<close> is 3, \<^verbatim>\<open>nodeCount\<close> is 6 and the export is root, c, a, then r (terminal for
  "car", with the child d, terminal for "card") and t (terminal for "cat").
\<close>

theorem cat_car_card:
  "fst (Trie_insert ''cat'' newTrie) \<and>
   fst (Trie_insert ''car'' (insert_all [''cat''] newTrie)) \<and>
   fst (Trie_insert ''card'' (insert_all [''cat'', ''car''] newTrie)) \<and>
   wordCount (insert_all [''cat'', ''car'', ''card''] newTrie) = 3 \<and>
   nodeCount (insert_all [''cat'', ''car'', ''card''] newTrie) = 6 \<and>
   toHierarchy (insert_all [''cat'', ''car'', ''card''] newTrie) =
     TrieHierarchyNode ''__root__'' [] [] False []
      [TrieHierarchyNode ''c'' ''c'' ''c'' False []
        [TrieHierarchyNode ''ca'' ''a'' ''ca'' False []
          [TrieHierarchyNode ''car'' ''r'' ''car'' True [''car'']
            [TrieHierarchyNode ''card'' ''d'' ''card'' True [''card''] []],
           TrieHierarchyNode ''cat'' ''t'' ''cat'' True [''cat''] []]]]"
  by code_simp

text \<open>
  C7: after \<^verbatim>\<open>clear()\<close> a trie in any state is the fresh trie (no words, \<^verbatim>\<open>wordCount\<close> 0,
  \<^verbatim>\<open>nodeCount\<close> 1, an export of the root alone); so inserting a list of words, clearing and
  inserting the list again gives the state, and with it the export, the words and the two
  counts, of a fresh trie with the list inserted once.
\<close>

theorem clear_gives_fresh_trie:
  "Trie_clear t = newTrie \<and>
   Trie_words (Trie_clear t) = [] \<and>
   wordCount (Trie_clear t) = 0 \<and>
   nodeCount (Trie_clear t) = 1 \<and>
   toHierarchy (Trie_clear t) = TrieHierarchyNode ''__root__'' [] [] False [] [] \<and>
   insert_all ws (Trie_clear (insert_all ws t)) = insert_all ws newTrie \<and>
   toHierarchy (insert_all ws (Trie_clear (insert_all ws t))) = toHierarchy (insert_all ws newTrie) \<and>
   Trie_words (insert_all ws (Trie_clear (insert_all ws t))) = Trie_words (insert_all ws newTrie) \<and>
   wordCount (insert_all ws (Trie_clear (insert_all ws t))) = wordCount (insert_all ws newTrie) \<and>
   nodeCount (insert_all ws (Trie_clear (insert_all ws t))) = nodeCount (insert_all ws newTrie)"
proof -
  have "nodeCount newTrie = 1"
    by (simp add: nodeCount_def newTrie_def createNode_def)
  moreover have "toHierarchy newTrie = TrieHierarchyNode ''__root__'' [] [] False [] []"
    by code_simp
  moreover have "Trie_words newTrie = []" and "wordCount newTrie = 0"
    by (simp_all add: Trie_words_def wordCount_def newTrie_def)
  ultimately show ?thesis
    by simp
qed

text \<open>
  C5: in the export of a trie in any state, the children of every node are sorted ascending by
  their \<^verbatim>\<open>char\<close>, and the \<^verbatim>\<open>path\<close> of every node is the concatenation of the \<^verbatim>\<open>char\<close> fields
  along the route from the root to it. The routes end at the nodes of the export, one each;
  the root's path is empty and the path of a child is its parent's path followed by its
  \<^verbatim>\<open>char\<close>.
\<close>

theorem toHierarchy_sorted_paths:
  "h_path (toHierarchy t) = [] \<and>
   map last (routes (toHierarchy t)) = h_nodes (toHierarchy t) \<and>
   (\<forall>r \<in> set (routes (toHierarchy t)).
      sorted (map h_char (h_children (last r))) \<and> h_path (last r) = concat (map h_char r)) \<and>
   (\<forall>n \<in> set (h_nodes (toHierarchy t)). \<forall>x \<in> set (h_children n).
      h_path x = h_path n @ h_char x)"
proof -
  have "sorted (map h_char (h_children (last r))) \<and> h_path (last r) = concat (map h_char r)"
    if r: "r \<in> set (routes (toHierarchy t))" for r
  proof -
    have "r \<noteq> []" using r by (rule routes_nonempty)
    moreover have "hd r = toHierarchy t" using r by (cases "toHierarchy t") auto
    moreover have "h_char (toHierarchy t) = []" by (simp add: toHierarchy_def)
    ultimately have "concat (map h_char r) = concat (map h_char (tl r))"
      by (cases r) simp_all
    then show ?thesis
      using convert_routes [of r "trie_root t" "[]" "[]"] r by (simp add: toHierarchy_def)
  qed
  moreover have "h_path x = h_path n @ h_char x"
    if "n \<in> set (h_nodes (toHierarchy t))" "x \<in> set (h_children n)" for n x
    using that convert_child_paths unfolding toHierarchy_def by blast
  ultimately show ?thesis
    by (simp add: last_routes) (simp add: toHierarchy_def)
qed


theorem toHierarchy_sorted_paths_witness:
  "routes (toHierarchy (insert_all [''cat'', ''car''] newTrie)) ! 2
     \<in> set (routes (toHierarchy (insert_all [''cat'', ''car''] newTrie))) \<and>
   map h_id (routes (toHierarchy (insert_all [''cat'', ''car''] newTrie)) ! 2) =
     [''__root__'', ''c'', ''ca''] \<and>
   map h_char (h_children (last (routes (toHierarchy (insert_all [''cat'', ''car''] newTrie)) ! 2))) =
     [''r'', ''t''] \<and>
   sorted (map h_char
     (h_children (last (routes (toHierarchy (insert_all [''cat'', ''car''] newTrie)) ! 2)))) \<and>
   h_path (last (routes (toHierarchy (insert_all [''cat'', ''car''] newTrie)) ! 2)) = ''ca'' \<and>
   concat (map h_char (routes (toHierarchy (insert_all [''cat'', ''car''] newTrie)) ! 2)) = ''ca''"
proof -
  have ev: "toHierarchy (insert_all [''cat'', ''car''] newTrie) =
     TrieHierarchyNode ''__root__'' [] [] False []
      [TrieHierarchyNode ''c'' ''c'' ''c'' False []
        [TrieHierarchyNode ''ca'' ''a'' ''ca'' False []
          [TrieHierarchyNode ''car'' ''r'' ''car'' True [''car''] [],
           TrieHierarchyNode ''cat'' ''t'' ''cat'' True [''cat''] []]]]"
    by code_simp
  show ?thesis
    using toHierarchy_sorted_paths [of "insert_all [''cat'', ''car''] newTrie"]
    unfolding ev by simp
qed

text \<open>
  C10: in the export of a trie in any reachable state, a node is terminal exactly when its
  \<^verbatim>\<open>words\<close> is the one-element list of its own \<^verbatim>\<open>path\<close>; a node that is not terminal has no
  words, no node has more than one, and the root is not terminal and has none.
\<close>

theorem terminal_iff_own_word:
  assumes "reachable t"
  shows "(\<forall>n \<in> set (h_nodes (toHierarchy t)).
            h_isTerminal n = (h_words n = [h_path n]) \<and>
            (\<not> h_isTerminal n \<longrightarrow> h_words n = []) \<and>
            length (h_words n) \<le> 1) \<and>
         \<not> h_isTerminal (toHierarchy t) \<and> h_words (toHierarchy t) = []"
proof -
  have words: "h_words n = (if h_isTerminal n then [h_path n] else [])"
    if "n \<in> set (h_nodes (toHierarchy t))" for n
    using that convert_words [OF reachable_words_ok [OF assms]] unfolding toHierarchy_def
    by blast
  have root: "\<not> h_isTerminal (toHierarchy t)"
    using reachable_root_not_terminal [OF assms] by (simp add: toHierarchy_def)
  moreover have "toHierarchy t \<in> set (h_nodes (toHierarchy t))"
    by (cases "toHierarchy t") simp
  ultimately have "h_words (toHierarchy t) = []"
    using words by simp
  then show ?thesis
    using words root by auto
qed

theorem terminal_iff_own_word_witness:
  "reachable (insert_all [''car'', ''cart''] newTrie) \<and>
   map (\<lambda>n. (h_path n, h_isTerminal n, h_words n))
       (h_nodes (toHierarchy (insert_all [''car'', ''cart''] newTrie))) =
     [([], False, []), (''c'', False, []), (''ca'', False, []),
      (''car'', True, [''car'']), (''cart'', True, [''cart''])] \<and>
   \<not> h_isTerminal (toHierarchy (insert_all [''car'', ''cart''] newTrie)) \<and>
   h_words (toHierarchy (insert_all [''car'', ''cart''] newTrie)) = []"
proof -
  have r: "reachable (insert_all [''car'', ''cart''] newTrie)"
    unfolding insert_all_def by (simp add: reach_insert reach_new)
  have ev: "map (\<lambda>n. (h_path n, h_isTerminal n, h_words n))
       (h_nodes (toHierarchy (insert_all [''car'', ''cart''] newTrie))) =
     [([], False, []), (''c'', False, []), (''ca'', False, []),
      (''car'', True, [''car'']), (''cart'', True, [''cart''])]"
    by code_simp
  show ?thesis
    using r ev terminal_iff_own_word [OF r] by simp
qed

text \<open>
  C9: after any sequence of calls on a new trie, the accessor \<^verbatim>\<open>words\<close> (of the trie, and so
  of the visualizer) returns a reference \<open>r\<close> to an array that holds the accepted words in
  insertion order, the contents of the trie's own array. The array is new: \<open>r\<close> is no
  address of the heap before the call, so it is not the trie's reference, and the arrays that
  were there are as they were. Whatever the caller then writes to the array at \<open>r\<close>, the
  trie's array, \<^verbatim>\<open>wordCount\<close> and what a later call of the accessor returns are unchanged.
\<close>

theorem words_returns_fresh_copy:
  assumes "run cs (Trie_constructor h0) = (this, h)" and "obj_words_getter this h = (r, h')"
  shows "h' ! r = accepted cs (Trie_constructor h0) [] \<and>
         h' ! r = h ! obj_words this \<and>
         length h \<le> r \<and> r \<noteq> obj_words this \<and>
         take (length h) h' = h \<and>
         Viz_words_getter this h = (r, h') \<and>
         (\<forall>ys. (h'[r := ys]) ! obj_words this = h ! obj_words this \<and>
               obj_wordCount this (h'[r := ys]) = obj_wordCount this h \<and>
               snd (obj_words_getter this (h'[r := ys])) ! fst (obj_words_getter this (h'[r := ys]))
                 = h ! obj_words this)"
proof -
  have valid: "obj_words this < length h"
    using valid_run [OF valid_constructor, of cs h0] assms(1) by (simp add: valid_ref_def)
  have "snd (Trie_constructor h0) ! obj_words (fst (Trie_constructor h0)) = []"
    by (simp add: Trie_constructor_def alloc_def)
  then have log: "h ! obj_words this = accepted cs (Trie_constructor h0) []"
    using accepted_run [OF valid_constructor, of h0 "[]" cs] assms(1) by simp
  have r: "r = length h" and h': "h' = h @ [h ! obj_words this]"
    using assms(2) by (simp_all add: obj_words_getter_def alloc_def)
  show ?thesis
    using valid log
    by (simp add: r h' obj_wordCount_def Viz_words_getter_def obj_words_getter_def alloc_def
        nth_append)
qed

theorem words_returns_fresh_copy_witness:
  "run [Insert ''cat'', Insert [], Insert ''cat'', Clear, Insert ''car'', Insert ''cat'']
       (Trie_constructor []) =
     (\<lparr>obj_root = InternalNode
         [(CHR ''c'', InternalNode [(CHR ''a'', InternalNode
            [(CHR ''r'', InternalNode [] True [''car'']),
             (CHR ''t'', InternalNode [] True [''cat''])] False [])] False [])] False [],
       obj_words = 1\<rparr>,
      [[''cat''], [''car'', ''cat'']]) \<and>
   obj_words_getter
     \<lparr>obj_root = InternalNode
         [(CHR ''c'', InternalNode [(CHR ''a'', InternalNode
            [(CHR ''r'', InternalNode [] True [''car'']),
             (CHR ''t'', InternalNode [] True [''cat''])] False [])] False [])] False [],
       obj_words = 1\<rparr>
     [[''cat''], [''car'', ''cat'']] =
     (2, [[''cat''], [''car'', ''cat''], [''car'', ''cat'']]) \<and>
   accepted [Insert ''cat'', Insert [], Insert ''cat'', Clear, Insert ''car'', Insert ''cat'']
       (Trie_constructor []) [] = [''car'', ''cat''] \<and>
   ([[''cat''], [''car'', ''cat''], [''car'', ''cat'']] [2 := [''dog'']]) ! 1 = [''car'', ''cat'']"
proof -
  let ?obj = "\<lparr>obj_root = InternalNode
         [(CHR ''c'', InternalNode [(CHR ''a'', InternalNode
            [(CHR ''r'', InternalNode [] True [''car'']),
             (CHR ''t'', InternalNode [] True [''cat''])] False [])] False [])] False [],
       obj_words = 1\<rparr>"
  have run: "run [Insert ''cat'', Insert [], Insert ''cat'', Clear, Insert ''car'', Insert ''cat'']
       (Trie_constructor []) = (?obj, [[''cat''], [''car'', ''cat'']])"
    by code_simp
  have get: "obj_words_getter ?obj [[''cat''], [''car'', ''cat'']] =
      (2, [[''cat''], [''car'', ''cat''], [''car'', ''cat'']])"
    by code_simp
  show ?thesis
    using run get words_returns_fresh_copy [OF run get] by simp
qed

section \<open>The claims about the visualizer\<close>

text \<open>
  C8: \<^verbatim>\<open>addWords(words)\<close> leaves the trie as inserting every word of the list in turn leaves
  it, and calls \<^verbatim>\<open>render\<close> once if some insertion returned true, which is when \<^verbatim>\<open>wordCount\<close>
  has grown, and not at all otherwise: the count of render passes grows by one or by nothing,
  whatever the length of the list, and without a render pass the scene is untouched.
\<close>

theorem addWords_renders_once:
  "trie (addWords ws v) = insert_all ws (trie v) \<and>
   renders (addWords ws v) = renders v + (if any_accepted ws (trie v) then 1 else 0) \<and>
   any_accepted ws (trie v) = (wordCount (trie v) < wordCount (trie (addWords ws v))) \<and>
   addWords ws v =
     (if any_accepted ws (trie v) then render (v\<lparr>trie := insert_all ws (trie v)\<rparr>)
      else v\<lparr>trie := insert_all ws (trie v)\<rparr>)"
proof -
  have eq: "addWords ws v =
     (if any_accepted ws (trie v) then render (v\<lparr>trie := insert_all ws (trie v)\<rparr>)
      else v\<lparr>trie := insert_all ws (trie v)\<rparr>)"
    by (simp add: addWords_def addWords_loop_eq)
  have "trie (render x) = trie x" and "renders (render x) = renders x + 1" for x
    by (simp_all add: render_def Let_def)
  then have "trie (addWords ws v) = insert_all ws (trie v)"
    and "renders (addWords ws v) = renders v + (if any_accepted ws (trie v) then 1 else 0)"
    by (simp_all add: eq)
  then show ?thesis
    using eq any_accepted_wordCount [of ws "trie v"] by simp
qed


theorem addWords_renders_once_witness:
  "renders (addWords [''the'', ''there'', ''their''] newTrieVisualizer) = 1 \<and>
   any_accepted [''the'', ''there'', ''their''] (trie newTrieVisualizer) \<and>
   Trie_words (trie (addWords [''the'', ''there'', ''their''] newTrieVisualizer)) =
     [''the'', ''there'', ''their''] \<and>
   renders (addWords [''the'', [], ''the'']
     (addWords [''the'', ''there'', ''their''] newTrieVisualizer)) = 1 \<and>
   \<not> any_accepted [''the'', [], ''the'']
     (trie (addWords [''the'', ''there'', ''their''] newTrieVisualizer))"
proof -
  let ?ws = "[''the'', ''there'', ''their'']"
  let ?again = "[''the'', [], ''the'']"
  let ?v = "addWords ?ws newTrieVisualizer"
  have new: "trie newTrieVisualizer = newTrie" "renders newTrieVisualizer = 0"
    by (simp_all add: newTrieVisualizer_def)
  have a: "any_accepted ?ws newTrie"
    by code_simp
  have b: "\<not> any_accepted ?again (insert_all ?ws newTrie)"
    by code_simp
  have c: "Trie_words (insert_all ?ws newTrie) = ?ws"
    by code_simp
  from addWords_renders_once [of ?ws newTrieVisualizer]
  have t: "trie ?v = insert_all ?ws newTrie"
    and r: "renders ?v = 0 + (if any_accepted ?ws newTrie then 1 else 0)"
    unfolding new by blast+
  from addWords_renders_once [of ?again ?v]
  have r2: "renders (addWords ?again ?v) =
      renders ?v + (if any_accepted ?again (insert_all ?ws newTrie) then 1 else 0)"
    unfolding t by blast
  have "renders ?v = 1"
    unfolding r using a by (simp only: if_True add_0)
  moreover have "renders (addWords ?again ?v) = 1"
    unfolding r2 r using a b by (simp only: if_True if_False add_0 add_0_right)
  ultimately show ?thesis
    unfolding t new using a b c by blast
qed

text \<open>
  C3, as the code has it. After \<^verbatim>\<open>addWords(['car', 'cart'])\<close> on a new visualizer, which renders
  once, \<^verbatim>\<open>highlightPath('car')\<close> leaves the widths below. The claim has the nodes of the ids
  \<^verbatim>\<open>__root__\<close>, \<^verbatim>\<open>c\<close>, \<^verbatim>\<open>ca\<close> and \<^verbatim>\<open>car\<close> at the emphasized width 4. Of these only \<^verbatim>\<open>car\<close> is: the
  groups of the root, \<^verbatim>\<open>c\<close> and \<^verbatim>\<open>ca\<close> hold no ring, their main circle is their first child
  and their second child is the label, so \<^verbatim>\<open>circle:nth-child(2)\<close> selects nothing in them. The
  links are as the claim says, and so is the node \<^verbatim>\<open>cart\<close>.
\<close>

theorem highlightPath_car_cart:
  "node_widths (highlightPath ''car'' (addWords [''car'', ''cart''] newTrieVisualizer)) =
     [(''__root__'', [Some 2.5]), (''c'', [Some 2.5]), (''ca'', [Some 2.5]),
      (''car'', [Some 2.5, Some 4]), (''cart'', [Some 2.5, Some 2.5])] \<and>
   link_widths (highlightPath ''car'' (addWords [''car'', ''cart''] newTrieVisualizer)) =
     [(''c'', Some 4), (''ca'', Some 4), (''car'', Some 4), (''cart'', Some 2.5)]"
  by code_simp

text \<open>
  C4, as the code has it. \<^verbatim>\<open>addWord('a')\<close> on a new visualizer renders the root circle and the
  ring of \<^verbatim>\<open>a\<close> with \<^verbatim>\<open>stroke-width\<close> 2 and the main circle of \<^verbatim>\<open>a\<close> with 2.5. The claim has
  \<^verbatim>\<open>clearHighlights()\<close> leave every circle at the width its render pass gave it; it sets all
  three to 2.5.
\<close>

theorem clearHighlights_widths:
  "node_widths (snd (addWord ''a'' newTrieVisualizer)) =
     [(''__root__'', [Some 2]), (''a'', [Some 2, Some 2.5])] \<and>
   node_widths (clearHighlights (snd (addWord ''a'' newTrieVisualizer))) =
     [(''__root__'', [Some 2.5]), (''a'', [Some 2.5, Some 2.5])]"
  by code_simp

end
